theory Spec2Isabelle
  imports Main "HOL-Library.Sublist" "HOL-Library.Char_ord"
begin

unbundle bit_operations_syntax

section \<open>The CUE sheet reader and writer of go-cuesheet\<close>

text \<open>
  A shallow embedding of package \<open>cuesheet\<close>. Go strings are byte sequences, so a
  string is a \<open>char list\<close> and every index and length counts bytes. \<open>uint\<close> and
  \<open>Frame\<close> (\<open>uint64\<close>) values are natural numbers; the one place where the source
  computes with them beyond division (\<open>ReadFrame\<close>) has the reduction modulo \<open>2 ^ 64\<close>
  written out. A Go run-time panic is the failure \<open>Panic\<close>, which is not an error value
  handed to the caller: it unwinds through every caller.
\<close>

subsection \<open>Errors\<close>

text \<open>
  \<open>ErrSyntax\<close> and \<open>ErrRange\<close> are the sentinel errors of \<open>strconv\<close>;
  \<open>NumError fn num err\<close> is \<open>&strconv.NumError{Func: fn, Num: num, Err: err}\<close>,
  the error that \<open>strconv.ParseUint\<close> returns.
\<close>

datatype error = ErrSyntax | ErrRange | NumError string string error | Panic

subsection \<open>Constants and data\<close>

definition delims :: string where
  "delims = [CHR 0x09, CHR 0x0A, CHR 0x0D, CHR 0x20]"

definition eol :: string where
  "eol = [CHR 0x0A]"

definition framesPerSecond :: nat where
  "framesPerSecond = 75"

text \<open>The flag constants: \<open>None = iota\<close> is 0 and the others are \<open>1 << iota\<close> for iota 1 to 4.\<close>

definition FlagsNone :: int where "FlagsNone = 0"
definition Dcp :: int where "Dcp = 2"
definition Four_ch :: int where "Four_ch = 4"
definition Pre :: int where "Pre = 8"
definition Scms :: int where "Scms = 16"

record TrackIndex =
  Number :: nat
  Frame :: nat

record Track =
  TrackNumber :: nat
  TrackDataType :: string
  Flags :: int
  Isrc :: string
  Title :: string
  Performer :: string
  SongWriter :: string
  Composer :: string
  Arranger :: string
  Message :: string
  Pregap :: nat
  Postgap :: nat
  Index :: "TrackIndex list"

record File =
  FileName :: string
  FileType :: string
  Tracks :: "Track list"

record Cuesheet =
  Rem :: "string list"
  Catalog :: string
  CdTextFile :: string
  Title :: string
  Performer :: string
  SongWriter :: string
  Composer :: string
  Arranger :: string
  Message :: string
  Genre :: string
  DiscId :: string
  UpcEan :: string
  Pregap :: nat
  Postgap :: nat
  File :: "File list"

subsection \<open>Library functions of \<open>strings\<close> and \<open>strconv\<close>\<close>

definition TrimLeft :: "string \<Rightarrow> string \<Rightarrow> string" where
  "TrimLeft s cutset = dropWhile (\<lambda>c. c \<in> set cutset) s"

definition Trim :: "string \<Rightarrow> string \<Rightarrow> string" where
  "Trim s cutset =
     rev (dropWhile (\<lambda>c. c \<in> set cutset) (rev (dropWhile (\<lambda>c. c \<in> set cutset) s)))"

definition ContainsAny :: "string \<Rightarrow> string \<Rightarrow> bool" where
  "ContainsAny s chars = list_ex (\<lambda>c. c \<in> set chars) s"

definition HasPrefix :: "string \<Rightarrow> string \<Rightarrow> bool" where
  "HasPrefix s p = (take (length p) s = p)"

text \<open>\<open>strings.Split(s, sep)\<close> for a one-byte separator: \<open>n\<close> separators give \<open>n + 1\<close> parts.\<close>

fun Split :: "string \<Rightarrow> char \<Rightarrow> string list" where
  "Split [] sep = [[]]"
| "Split (c # cs) sep =
     (if c = sep then [] # Split cs sep
      else (case Split cs sep of [] \<Rightarrow> [[c]] | p # ps \<Rightarrow> (c # p) # ps))"

definition isDigit :: "char \<Rightarrow> bool" where
  "isDigit c = (CHR ''0'' \<le> c \<and> c \<le> CHR ''9'')"

text \<open>
  \<open>strconv.ParseUint(s, 10, bitSize)\<close>. The empty string is a syntax error; the bytes
  are read left to right, a byte that is not a decimal digit is a syntax error, and a value
  that passes \<open>2 ^ bitSize - 1\<close> is a range error, reported at the digit where it
  happens. The accumulator never exceeds \<open>2 ^ bitSize - 1\<close> on entry to a step, so for
  \<open>bitSize \<le> 32\<close> the 64-bit products of the library cannot wrap.
\<close>

fun ParseUint_digits :: "string \<Rightarrow> nat \<Rightarrow> nat \<Rightarrow> error + nat" where
  "ParseUint_digits [] maxVal n = Inr n"
| "ParseUint_digits (c # cs) maxVal n =
     (if \<not> isDigit c then Inl ErrSyntax
      else (let n1 = n * 10 + (of_char c - 48) in
            if n1 > maxVal then Inl ErrRange else ParseUint_digits cs maxVal n1))"

definition ParseUint :: "string \<Rightarrow> nat \<Rightarrow> error + nat" where
  "ParseUint s bitSize =
     (if s = [] then Inl (NumError ''ParseUint'' s ErrSyntax)
      else (case ParseUint_digits s (2 ^ bitSize - 1) 0 of
              Inl e \<Rightarrow> Inl (NumError ''ParseUint'' s e)
            | Inr n \<Rightarrow> Inr n))"

text \<open>\<open>strconv.FormatUint(n, 10)\<close>: the decimal digits of \<open>n\<close>, no leading zero.\<close>

fun FormatUint :: "nat \<Rightarrow> string" where
  "FormatUint n =
     (if n < 10 then [char_of (48 + n)]
      else FormatUint (n div 10) @ [char_of (48 + n mod 10)])"

declare FormatUint.simps [simp del]

subsection \<open>The field reader\<close>

definition isQuoted :: "string \<Rightarrow> bool" where
  "isQuoted s = (case s of [] \<Rightarrow> False | c # _ \<Rightarrow> c = CHR 0x22 \<or> c = CHR 0x27)"

definition quote :: "string \<Rightarrow> char \<Rightarrow> string" where
  "quote s q =
     [q] @ concat (map (\<lambda>c. if c = q \<or> c = CHR 0x5C then [CHR 0x5C, c] else [c]) s) @ [q]"

text \<open>
  The loop of \<open>unquote\<close>: the index \<open>i\<close> runs from 1 to the first byte equal to the
  opening quote, stepping over the byte after a backslash. It can stop at \<open>length s + 1\<close>.
\<close>

function unquote_loop :: "string \<Rightarrow> char \<Rightarrow> nat \<Rightarrow> nat" where
  "unquote_loop s q i =
     (if i < length s then
        (if s ! i = q then i
         else if s ! i = CHR 0x5C then unquote_loop s q (i + 1 + 1)
         else unquote_loop s q (i + 1))
      else i)"
  by pat_completeness auto
termination
  by (relation "measure (\<lambda>(s, q, i). length s - i)") auto

declare unquote_loop.simps [simp del]

text \<open>
  \<open>s[0]\<close> panics on the empty string, and the slice \<open>s[1:i]\<close> panics when \<open>i\<close> is
  past the end. The result is the raw text between the quotes: no escape is removed.
\<close>

definition unquote :: "string \<Rightarrow> error + string" where
  "unquote s =
     (case s of
        [] \<Rightarrow> Inl Panic
      | q # _ \<Rightarrow>
          (let i = unquote_loop s q 1 in
           if i > length s then Inl Panic else Inr (drop 1 (take i s))))"

text \<open>The index of the first space, as the \<open>for\<close> loop of \<open>ReadString\<close> finds it.\<close>

fun indexSpace :: "string \<Rightarrow> nat option" where
  "indexSpace [] = None"
| "indexSpace (c # cs) = (if c = CHR 0x20 then Some 0 else map_option Suc (indexSpace cs))"

text \<open>
  \<open>ReadString\<close> returns the field and the new value of the cursor \<open>*s\<close>. The slice
  \<open>(*s)[len(v)+2:]\<close> panics when the cursor has fewer than \<open>len(v) + 2\<close> bytes.
\<close>

definition ReadString :: "string \<Rightarrow> error + (string \<times> string)" where
  "ReadString s0 =
     (let s = TrimLeft s0 delims in
      if isQuoted s then
        (case unquote s of
           Inl e \<Rightarrow> Inl e
         | Inr v \<Rightarrow> if length v + 2 > length s then Inl Panic
                    else Inr (v, drop (length v + 2) s))
      else
        (case indexSpace s of
           Some i \<Rightarrow> Inr (take i s, drop (i + 1) s)
         | None \<Rightarrow> Inr (s, [])))"

definition ReadUint :: "string \<Rightarrow> error + (nat \<times> string)" where
  "ReadUint s =
     (case ReadString s of
        Inl e \<Rightarrow> Inl e
      | Inr (v, s') \<Rightarrow>
          (case ParseUint v 32 of Inl e \<Rightarrow> Inl e | Inr n \<Rightarrow> Inr (n, s')))"

definition ReadFrame :: "string \<Rightarrow> error + (nat \<times> string)" where
  "ReadFrame s =
     (case ReadString s of
        Inl e \<Rightarrow> Inl e
      | Inr (fld, s') \<Rightarrow>
          (let v = Split fld (CHR '':'') in
           if length v \<noteq> 3 then Inl ErrSyntax
           else (case ParseUint (v ! 0) 32 of
                   Inl e \<Rightarrow> Inl e
                 | Inr mm \<Rightarrow>
                     (case ParseUint (v ! 1) 32 of
                        Inl e \<Rightarrow> Inl e
                      | Inr ss \<Rightarrow>
                          (case ParseUint (v ! 2) 32 of
                             Inl e \<Rightarrow> Inl e
                           | Inr ff \<Rightarrow>
                               Inr (((mm * 60 + ss) * framesPerSecond + ff) mod 2 ^ 64, s'))))))"

subsection \<open>Formatting\<close>

definition FormatString :: "string \<Rightarrow> string" where
  "FormatString s = (if ContainsAny s delims then quote s (CHR 0x22) else s)"

text \<open>
  \<open>leftPad\<close> computes with Go's \<open>int\<close>: the division truncates and panics on a zero
  divisor, \<open>strings.Repeat\<close> panics on a negative count, and the final slice panics when
  its start is outside the string.
\<close>

definition leftPad :: "string \<Rightarrow> string \<Rightarrow> int \<Rightarrow> error + string" where
  "leftPad s padStr overallLen =
     (if length padStr = 0 then Inl Panic
      else
        (let d = overallLen - int (length padStr);
             padCountInt = 1 + sgn d * (\<bar>d\<bar> div int (length padStr)) in
         if padCountInt < 0 then Inl Panic
         else
           (let retStr = concat (replicate (nat padCountInt) padStr) @ s;
                start = int (length retStr) - overallLen in
            if start < 0 \<or> int (length retStr) < start then Inl Panic
            else Inr (drop (nat start) retStr))))"

definition FormatTrackNumber :: "nat \<Rightarrow> error + string" where
  "FormatTrackNumber n = leftPad (FormatUint n) ''0'' 2"

definition FormatFrame :: "nat \<Rightarrow> error + string" where
  "FormatFrame frame =
     (let n = frame div framesPerSecond;
          mm = n div 60;
          ss = n mod 60;
          ff = frame mod framesPerSecond in
      case leftPad (FormatUint mm) ''0'' 2 of
        Inl e \<Rightarrow> Inl e
      | Inr m \<Rightarrow>
          (case leftPad (FormatUint ss) ''0'' 2 of
             Inl e \<Rightarrow> Inl e
           | Inr s \<Rightarrow>
               (case leftPad (FormatUint ff) ''0'' 2 of
                  Inl e \<Rightarrow> Inl e
                | Inr f \<Rightarrow> Inr (m @ '':'' @ s @ '':'' @ f))))"

subsection \<open>The structural parser\<close>

text \<open>
  The \<open>bufio.Reader\<close> over the input is modelled by the bytes not yet read.
  \<open>bufio_ReadString b delim\<close> returns the line, whether the error is \<open>io.EOF\<close>, and
  the reader afterwards: a line ends with its delimiter; when no delimiter is left the rest of
  the input comes back together with \<open>io.EOF\<close>. The input is in memory, so no other read
  error occurs. Saving \<open>before := *b\<close> and restoring \<open>*b = before\<close> puts the reader back
  to the bytes it had; this is what the copy of the reader does as long as the line read in
  between was already in the reader's buffer. The buffer holds 4096 bytes: the model is the
  code on an input that the first read delivers whole, so of at most 4096 bytes. On a longer
  input the code refills the buffer, and a line put back across a refill is not read again
  as it was; the round trip below, which needs every line that is put back to be read
  again, is therefore stated for a text within one buffer.
\<close>

type_synonym reader = string

definition bufio_ReadString :: "reader \<Rightarrow> char \<Rightarrow> string \<times> bool \<times> reader" where
  "bufio_ReadString b delim =
     (if delim \<in> set b
      then (takeWhile (\<lambda>c. c \<noteq> delim) b @ [delim], False,
            drop 1 (dropWhile (\<lambda>c. c \<noteq> delim) b))
      else (b, True, []))"

lemma bufio_ReadString_shorter:
  "bufio_ReadString b delim = (line, False, b') \<Longrightarrow> length b' < length b"
proof -
  assume a: "bufio_ReadString b delim = (line, False, b')"
  then have m: "delim \<in> set b"
    by (auto simp: bufio_ReadString_def split: if_splits)
  then have "dropWhile (\<lambda>c. c \<noteq> delim) b \<noteq> []" by simp
  moreover have "length (dropWhile (\<lambda>c. c \<noteq> delim) b) \<le> length b"
    by (rule length_dropWhile_le)
  moreover have "b' = drop 1 (dropWhile (\<lambda>c. c \<noteq> delim) b)"
    using a m by (simp add: bufio_ReadString_def)
  ultimately show ?thesis by (cases "dropWhile (\<lambda>c. c \<noteq> delim) b") auto
qed

lemma ReadString_shorter:
  assumes "ReadString s = Inr (v, s')" "s \<noteq> []"
  shows "length s' < length s"
proof -
  have le: "length (TrimLeft s delims) \<le> length s"
    by (simp add: TrimLeft_def length_dropWhile_le)
  show ?thesis
  proof (cases "TrimLeft s delims = []")
    case True
    with assms show ?thesis by (auto simp: ReadString_def isQuoted_def)
  next
    case False
    then have "length s' < length (TrimLeft s delims)"
      using assms(1)
      by (auto simp: ReadString_def Let_def split: if_splits sum.splits option.splits)
    with le show ?thesis by simp
  qed
qed

text \<open>The loop of the \<open>FLAGS\<close> case: one token at a time until the line is empty.\<close>

function readFlags :: "string \<Rightarrow> int \<Rightarrow> error + int" where
  "readFlags line flags =
     (if length line > 0 then
        (case ReadString line of
           Inl e \<Rightarrow> Inl e
         | Inr (v, line') \<Rightarrow>
             readFlags line'
               (if v = ''DCP'' then flags OR Dcp
                else if v = ''4CH'' then flags OR Four_ch
                else if v = ''PRE'' then flags OR Pre
                else if v = ''SCMS'' then flags OR Scms
                else flags))
      else Inr flags)"
  by pat_completeness auto
termination
  by (relation "measure (\<lambda>(line, flags). length line)") (auto dest: ReadString_shorter)

declare readFlags.simps [simp del]

text \<open>
  The \<open>switch\<close> of \<open>readTrack\<close> on one line: the updated track, or \<open>None\<close> for the
  \<open>default\<close> case, which leaves the loop.
\<close>

definition readTrack_command :: "string \<Rightarrow> string \<Rightarrow> Track \<Rightarrow> error + Track option" where
  "readTrack_command command line track =
     (if command = ''FLAGS'' then
        (case readFlags line FlagsNone of
           Inl e \<Rightarrow> Inl e
         | Inr fl \<Rightarrow> Inr (Some (track\<lparr>Flags := fl\<rparr>)))
      else if command = ''ISRC'' then Inr (Some (track\<lparr>Isrc := line\<rparr>))
      else if command = ''TITLE'' then
        (case ReadString line of
           Inl e \<Rightarrow> Inl e
         | Inr (v, _) \<Rightarrow> Inr (Some (track\<lparr>Track.Title := v\<rparr>)))
      else if command = ''PERFORMER'' then
        (case ReadString line of
           Inl e \<Rightarrow> Inl e
         | Inr (v, _) \<Rightarrow> Inr (Some (track\<lparr>Track.Performer := v\<rparr>)))
      else if command = ''SONGWRITER'' then
        (case ReadString line of
           Inl e \<Rightarrow> Inl e
         | Inr (v, _) \<Rightarrow> Inr (Some (track\<lparr>Track.SongWriter := v\<rparr>)))
      else if command = ''COMPOSER'' then
        (case ReadString line of
           Inl e \<Rightarrow> Inl e
         | Inr (v, _) \<Rightarrow> Inr (Some (track\<lparr>Track.Composer := v\<rparr>)))
      else if command = ''ARRANGER'' then
        (case ReadString line of
           Inl e \<Rightarrow> Inl e
         | Inr (v, _) \<Rightarrow> Inr (Some (track\<lparr>Track.Arranger := v\<rparr>)))
      else if command = ''MESSAGE'' then
        (case ReadString line of
           Inl e \<Rightarrow> Inl e
         | Inr (v, _) \<Rightarrow> Inr (Some (track\<lparr>Track.Message := v\<rparr>)))
      else if command = ''PREGAP'' then
        (case ReadFrame line of
           Inl e \<Rightarrow> Inl e
         | Inr (frame, _) \<Rightarrow> Inr (Some (track\<lparr>Track.Pregap := frame\<rparr>)))
      else if command = ''POSTGAP'' then
        (case ReadFrame line of
           Inl e \<Rightarrow> Inl e
         | Inr (frame, _) \<Rightarrow> Inr (Some (track\<lparr>Track.Postgap := frame\<rparr>)))
      else if command = ''INDEX'' then
        (case ReadUint line of
           Inl e \<Rightarrow> Inl e
         | Inr (num, line') \<Rightarrow>
             (case ReadFrame line' of
                Inl e \<Rightarrow> Inl e
              | Inr (frame, _) \<Rightarrow>
                  Inr (Some (track\<lparr>Index := Index track @ [\<lparr>Number = num, Frame = frame\<rparr>]\<rparr>))))
      else if command = ''REM'' then Inr (Some track)
      else Inr None)"

text \<open>
  \<open>readTrack\<close> returns the track and the reader as it leaves them. A line without the
  four-space prefix is put back (the result carries \<open>b\<close>, the reader before the line);
  at \<open>io.EOF\<close> and in the \<open>default\<close> case the loop is left with the reader after the line.
\<close>

function readTrack :: "reader \<Rightarrow> Track \<Rightarrow> error + (Track \<times> reader)" where
  "readTrack b track =
     (let (line, eof, b') = bufio_ReadString b (CHR 0x0A) in
      if eof then Inr (track, b')
      else if \<not> HasPrefix line ''    '' then Inr (track, b)
      else
        (case ReadString (Trim line delims) of
           Inl e \<Rightarrow> Inl e
         | Inr (command, line') \<Rightarrow>
             (case readTrack_command command line' track of
                Inl e \<Rightarrow> Inl e
              | Inr None \<Rightarrow> Inr (track, b')
              | Inr (Some track') \<Rightarrow> readTrack b' track')))"
  by pat_completeness auto
termination
  by (relation "measure (\<lambda>(b, track). length b)")
    (auto dest: bufio_ReadString_shorter [OF sym])

declare readTrack.simps [simp del]

lemma readTrack_length:
  "readTrack b track = Inr (track', b') \<Longrightarrow> length b' \<le> length b"
proof (induction "length b" arbitrary: b track track' b' rule: less_induct)
  case less
  obtain line eof b1 where r: "bufio_ReadString b (CHR 0x0A) = (line, eof, b1)"
    by (cases "bufio_ReadString b (CHR 0x0A)") auto
  show ?case
  proof (cases eof)
    case True
    with r less.prems have "b' = b1" by (simp add: readTrack.simps [of b])
    moreover from r True have "b1 = []"
      by (auto simp: bufio_ReadString_def split: if_splits)
    ultimately show ?thesis by simp
  next
    case False
    with r have sh: "length b1 < length b" by (auto dest: bufio_ReadString_shorter)
    have ih: "length b2 \<le> length b" if "readTrack b1 t = Inr (track', b2)" for t b2
      using less.hyps [OF sh that] sh by simp
    from less.prems r False consider "b' = b" | "b' = b1" | t where "readTrack b1 t = Inr (track', b')"
      by (auto simp: readTrack.simps [of b] split: if_splits sum.splits option.splits)
    then show ?thesis
      using sh ih by cases auto
  qed
qed

definition emptyTrack :: Track where
  "emptyTrack =
     \<lparr>TrackNumber = 0, TrackDataType = [], Flags = 0, Isrc = [], Title = [], Performer = [],
      SongWriter = [], Composer = [], Arranger = [], Message = [], Pregap = 0, Postgap = 0,
      Index = []\<rparr>"

text \<open>The loop of \<open>readTracks\<close>, with the list \<open>*tracks\<close> built so far.\<close>

function readTracks_loop :: "reader \<Rightarrow> Track list \<Rightarrow> error + (Track list \<times> reader)" where
  "readTracks_loop b tracks =
     (let (line, eof, b') = bufio_ReadString b (CHR 0x0A) in
      if eof then Inr (tracks, b')
      else if \<not> HasPrefix line ''  '' then Inr (tracks, b)
      else
        (case ReadString (Trim line delims) of
           Inl e \<Rightarrow> Inl e
         | Inr (command, line') \<Rightarrow>
             if command = ''TRACK'' then
               (case ReadUint line' of
                  Inl e \<Rightarrow> Inl e
                | Inr (num, line'') \<Rightarrow>
                    (case ReadString line'' of
                       Inl e \<Rightarrow> Inl e
                     | Inr (dataType, _) \<Rightarrow>
                         (case readTrack b' (emptyTrack\<lparr>TrackNumber := num, TrackDataType := dataType\<rparr>) of
                            Inl e \<Rightarrow> Inl e
                          | Inr (track, b'') \<Rightarrow> readTracks_loop b'' (tracks @ [track]))))
             else Inr (tracks, b')))"
  by pat_completeness auto
termination
  by (relation "measure (\<lambda>(b, tracks). length b)")
    (auto dest!: bufio_ReadString_shorter [OF sym] readTrack_length)

declare readTracks_loop.simps [simp del]

definition readTracks :: "reader \<Rightarrow> error + (Track list \<times> reader)" where
  "readTracks b = readTracks_loop b []"

lemma readTracks_loop_length:
  "readTracks_loop b tracks = Inr (tracks', b') \<Longrightarrow> length b' \<le> length b"
proof (induction "length b" arbitrary: b tracks tracks' b' rule: less_induct)
  case less
  obtain line eof b1 where r: "bufio_ReadString b (CHR 0x0A) = (line, eof, b1)"
    by (cases "bufio_ReadString b (CHR 0x0A)") auto
  show ?case
  proof (cases eof)
    case True
    with r less.prems have "b' = b1" by (simp add: readTracks_loop.simps [of b])
    moreover from r True have "b1 = []"
      by (auto simp: bufio_ReadString_def split: if_splits)
    ultimately show ?thesis by simp
  next
    case False
    with r have sh: "length b1 < length b" by (auto dest: bufio_ReadString_shorter)
    have ih: "length b3 \<le> length b"
      if "readTrack b1 t = Inr (t', b2)" "readTracks_loop b2 ts = Inr (tracks', b3)" for t t' b2 ts b3
    proof -
      from that(1) have "length b2 \<le> length b1" by (rule readTrack_length)
      with sh have "length b2 < length b" by simp
      from less.hyps [OF this that(2)] \<open>length b2 < length b\<close> show ?thesis by simp
    qed
    from less.prems r False consider "b' = b" | "b' = b1"
      | t t' b2 ts where "readTrack b1 t = Inr (t', b2)" "readTracks_loop b2 ts = Inr (tracks', b')"
      by (auto simp: readTracks_loop.simps [of b] split: if_splits sum.splits option.splits)
    then show ?thesis
      using sh ih by cases auto
  qed
qed

text \<open>
  The \<open>switch\<close> of \<open>ReadFile\<close> on one line: the updated sheet and the reader, which only
  the \<open>FILE\<close> case moves (through \<open>readTracks\<close>). A command that is not listed changes
  nothing.
\<close>

definition ReadFile_command ::
  "string \<Rightarrow> string \<Rightarrow> reader \<Rightarrow> Cuesheet \<Rightarrow> error + (Cuesheet \<times> reader)" where
  "ReadFile_command command line b cuesheet =
     (if command = ''REM'' then Inr (cuesheet\<lparr>Rem := Rem cuesheet @ [line]\<rparr>, b)
      else if command = ''CATALOG'' then Inr (cuesheet\<lparr>Catalog := line\<rparr>, b)
      else if command = ''CDTEXTFILE'' then
        (case ReadString line of
           Inl e \<Rightarrow> Inl e
         | Inr (v, _) \<Rightarrow> Inr (cuesheet\<lparr>CdTextFile := v\<rparr>, b))
      else if command = ''TITLE'' then
        (case ReadString line of
           Inl e \<Rightarrow> Inl e
         | Inr (v, _) \<Rightarrow> Inr (cuesheet\<lparr>Title := v\<rparr>, b))
      else if command = ''PERFORMER'' then
        (case ReadString line of
           Inl e \<Rightarrow> Inl e
         | Inr (v, _) \<Rightarrow> Inr (cuesheet\<lparr>Performer := v\<rparr>, b))
      else if command = ''SONGWRITER'' then
        (case ReadString line of
           Inl e \<Rightarrow> Inl e
         | Inr (v, _) \<Rightarrow> Inr (cuesheet\<lparr>SongWriter := v\<rparr>, b))
      else if command = ''COMPOSER'' then
        (case ReadString line of
           Inl e \<Rightarrow> Inl e
         | Inr (v, _) \<Rightarrow> Inr (cuesheet\<lparr>Composer := v\<rparr>, b))
      else if command = ''ARRANGER'' then
        (case ReadString line of
           Inl e \<Rightarrow> Inl e
         | Inr (v, _) \<Rightarrow> Inr (cuesheet\<lparr>Arranger := v\<rparr>, b))
      else if command = ''MESSAGE'' then
        (case ReadString line of
           Inl e \<Rightarrow> Inl e
         | Inr (v, _) \<Rightarrow> Inr (cuesheet\<lparr>Message := v\<rparr>, b))
      else if command = ''GENRE'' then
        (case ReadString line of
           Inl e \<Rightarrow> Inl e
         | Inr (v, _) \<Rightarrow> Inr (cuesheet\<lparr>Genre := v\<rparr>, b))
      else if command = ''DISC_ID'' then
        (case ReadString line of
           Inl e \<Rightarrow> Inl e
         | Inr (v, _) \<Rightarrow> Inr (cuesheet\<lparr>DiscId := v\<rparr>, b))
      else if command = ''UPC_EAN'' then
        (case ReadString line of
           Inl e \<Rightarrow> Inl e
         | Inr (v, _) \<Rightarrow> Inr (cuesheet\<lparr>UpcEan := v\<rparr>, b))
      else if command = ''PREGAP'' then
        (case ReadFrame line of
           Inl e \<Rightarrow> Inl e
         | Inr (frame, _) \<Rightarrow> Inr (cuesheet\<lparr>Pregap := frame\<rparr>, b))
      else if command = ''POSTGAP'' then
        (case ReadFrame line of
           Inl e \<Rightarrow> Inl e
         | Inr (frame, _) \<Rightarrow> Inr (cuesheet\<lparr>Postgap := frame\<rparr>, b))
      else if command = ''FILE'' then
        (case ReadString line of
           Inl e \<Rightarrow> Inl e
         | Inr (fname, line') \<Rightarrow>
             (case ReadString line' of
                Inl e \<Rightarrow> Inl e
              | Inr (ftype, _) \<Rightarrow>
                  (case readTracks b of
                     Inl e \<Rightarrow> Inl e
                   | Inr (tracks, b') \<Rightarrow>
                       Inr (cuesheet\<lparr>File := File cuesheet @
                              [\<lparr>FileName = fname, FileType = ftype, Tracks = tracks\<rparr>]\<rparr>, b'))))
      else Inr (cuesheet, b))"

lemma ReadFile_command_length:
  "ReadFile_command command line b cuesheet = Inr (cuesheet', b') \<Longrightarrow> length b' \<le> length b"
proof -
  assume a: "ReadFile_command command line b cuesheet = Inr (cuesheet', b')"
  then consider "b' = b" | tracks where "readTracks_loop b [] = Inr (tracks, b')"
    by (auto simp: ReadFile_command_def readTracks_def split: if_splits sum.splits)
  then show ?thesis
    by cases (auto dest: readTracks_loop_length)
qed

function ReadFile_loop :: "reader \<Rightarrow> Cuesheet \<Rightarrow> error + Cuesheet" where
  "ReadFile_loop b cuesheet =
     (let (line, eof, b') = bufio_ReadString b (CHR 0x0A) in
      if eof then Inr cuesheet
      else
        (case ReadString (Trim line delims) of
           Inl e \<Rightarrow> Inl e
         | Inr (command, line') \<Rightarrow>
             (case ReadFile_command command line' b' cuesheet of
                Inl e \<Rightarrow> Inl e
              | Inr (cuesheet', b'') \<Rightarrow> ReadFile_loop b'' cuesheet')))"
  by pat_completeness auto
termination
  by (relation "measure (\<lambda>(b, cuesheet). length b)")
    (auto dest!: bufio_ReadString_shorter [OF sym] ReadFile_command_length)

declare ReadFile_loop.simps [simp del]

definition emptyCuesheet :: Cuesheet where
  "emptyCuesheet =
     \<lparr>Rem = [], Catalog = [], CdTextFile = [], Title = [], Performer = [], SongWriter = [],
      Composer = [], Arranger = [], Message = [], Genre = [], DiscId = [], UpcEan = [],
      Pregap = 0, Postgap = 0, File = []\<rparr>"

text \<open>\<open>ReadFile\<close> on the bytes that the \<open>io.Reader\<close> delivers.\<close>

definition ReadFile :: "string \<Rightarrow> error + Cuesheet" where
  "ReadFile r = ReadFile_loop r emptyCuesheet"

subsection \<open>The serializer\<close>









subsection \<open>The validator\<close>

text \<open>
  A Go \<open>error\<close> result that may be \<open>nil\<close> is an \<open>error option\<close>. \<open>ValidateCatalog\<close>
  ranges over the runes of the string; a rune is a decimal digit exactly when it is a single
  byte that is one, so the test is made on the bytes.
\<close>

definition ValidateCatalog :: "string \<Rightarrow> error option" where
  "ValidateCatalog catalog =
     (if length catalog \<noteq> 13 then Some ErrSyntax
      else if list_ex (\<lambda>c. c < CHR ''0'' \<or> c > CHR ''9'') catalog then Some ErrSyntax
      else None)"

definition isLetter :: "char \<Rightarrow> bool" where
  "isLetter c = ((CHR ''A'' \<le> c \<and> c \<le> CHR ''Z'') \<or> (CHR ''a'' \<le> c \<and> c \<le> CHR ''z''))"

definition isAlphaNum :: "char \<Rightarrow> bool" where
  "isAlphaNum c = (isLetter c \<or> isDigit c)"

definition ValidateISRC :: "string \<Rightarrow> error option" where
  "ValidateISRC isrc =
     (if length isrc \<noteq> 12 then Some ErrSyntax
      else if (\<not> isLetter (isrc ! 0)) \<or> (\<not> isLetter (isrc ! 1)) then Some ErrSyntax
      else if list_ex (\<lambda>i. \<not> isAlphaNum (isrc ! i)) [2..<5] then Some ErrSyntax
      else if list_ex (\<lambda>i. \<not> isDigit (isrc ! i)) [5..<12] then Some ErrSyntax
      else None)"

definition ValidFileTypes :: "string \<rightharpoonup> bool" where
  "ValidFileTypes =
     map_of [(''BINARY'', True), (''MOTOROLA'', True), (''AIFF'', True), (''WAVE'', True),
             (''MP3'', True)]"

definition ValidateFileType :: "string \<Rightarrow> error option" where
  "ValidateFileType fileType =
     (if \<not> (case ValidFileTypes fileType of None \<Rightarrow> False | Some ok \<Rightarrow> ok) then Some ErrSyntax
      else None)"

text \<open>\<open>ValidTrackModes\<close>: the name and the block size of each track data type.\<close>

definition ValidTrackModes :: "string \<rightharpoonup> string \<times> nat" where
  "ValidTrackModes =
     map_of [(''AUDIO'', (''AUDIO'', 2352)), (''CDG'', (''CDG'', 2448)),
             (''MODE1/2048'', (''MODE1/2048'', 2048)), (''MODE1/2352'', (''MODE1/2352'', 2352)),
             (''MODE2/2336'', (''MODE2/2336'', 2336)), (''MODE2/2352'', (''MODE2/2352'', 2352)),
             (''CDI/2336'', (''CDI/2336'', 2336)), (''CDI/2352'', (''CDI/2352'', 2352))]"

definition ValidateTrackDataType :: "string \<Rightarrow> error option" where
  "ValidateTrackDataType dataType =
     (case ValidTrackModes dataType of None \<Rightarrow> Some ErrSyntax | Some _ \<Rightarrow> None)"

text \<open>
  The loop over the indexes of a track carries \<open>hasIndex01\<close> and the errors found so far.
\<close>

definition Track_Validate_indexes :: "TrackIndex list \<Rightarrow> bool \<times> error list \<Rightarrow> bool \<times> error list" where
  "Track_Validate_indexes idxs st =
     fold (\<lambda>idx (hasIndex01, errs).
             (if Number idx = 1 then True else hasIndex01,
              if Number idx > 99 then errs @ [ErrRange] else errs)) idxs st"

definition Track_Validate :: "Track \<Rightarrow> error list" where
  "Track_Validate t =
     (let errs = (if TrackNumber t < 1 \<or> TrackNumber t > 99 then [ErrRange] else []);
          (hasIndex01, errs) = Track_Validate_indexes (Index t) (False, errs);
          errs = (if \<not> hasIndex01 then errs @ [ErrSyntax] else errs);
          errs = (if length (Isrc t) > 0
                  then (case ValidateISRC (Isrc t) of None \<Rightarrow> errs | Some err \<Rightarrow> errs @ [err])
                  else errs);
          errs = (case ValidateTrackDataType (TrackDataType t) of
                    None \<Rightarrow> errs | Some err \<Rightarrow> errs @ [err])
      in errs)"

definition Cuesheet_Validate :: "Cuesheet \<Rightarrow> error list" where
  "Cuesheet_Validate c =
     (let errs = (if length (Catalog c) > 0
                  then (case ValidateCatalog (Catalog c) of None \<Rightarrow> [] | Some err \<Rightarrow> [err])
                  else []);
          errs = (if length (File c) = 0 then errs @ [ErrSyntax] else errs)
      in fold (\<lambda>file errs.
                 fold (\<lambda>track errs.
                         (let trackErrs = Track_Validate track in
                          if length trackErrs > 0 then errs @ trackErrs else errs))
                   (Tracks file)
                   (case ValidateFileType (FileType file) of
                      None \<Rightarrow> errs | Some err \<Rightarrow> errs @ [err]))
           (File c) errs)"

subsection \<open>A relation for the statements about the end of the input\<close>

text \<open>
  \<open>same_upto l x y\<close>: the results \<open>x\<close> and \<open>y\<close> of a loop of the parser are the same
  error, or the same value with the reader of \<open>y\<close> holding \<open>l\<close> after the bytes of the
  reader of \<open>x\<close>, or both readers are at the end of the input.
\<close>

definition same_upto :: "string \<Rightarrow> error + ('a \<times> reader) \<Rightarrow> error + ('a \<times> reader) \<Rightarrow> bool" where
  "same_upto l x y =
     (case x of
        Inl e \<Rightarrow> y = Inl e
      | Inr (a, r) \<Rightarrow> y = Inr (a, r @ l) \<or> (r = [] \<and> y = Inr (a, [])))"

subsection \<open>The outcome of parsing one component of a frame\<close>

text \<open>
  A description of what \<open>ParseUint\<close> (base 10, 32 bits) does with a component, in terms of
  the text alone; \<open>ParseUint_32\<close> below proves that it agrees with \<open>ParseUint\<close>.
  \<open>decimalValue\<close> is the number that a run of decimal digits denotes. \<open>componentError\<close> is
  the error kind, if any: a syntax error for the empty component; a range error when the
  digits at the start of the component already denote \<open>2 ^ 32\<close> or more, since the overflow is
  met before any later byte is looked at; a syntax error when they do not and some byte is
  not a digit.
\<close>

definition decimalValue :: "string \<Rightarrow> nat" where
  "decimalValue s = foldl (\<lambda>n c. n * 10 + (of_char c - 48)) 0 s"

definition componentError :: "string \<Rightarrow> error option" where
  "componentError x =
     (if x = [] then Some ErrSyntax
      else if 2 ^ 32 \<le> decimalValue (takeWhile isDigit x) then Some ErrRange
      else if \<not> list_all isDigit x then Some ErrSyntax
      else None)"

subsection \<open>The text that the serializer produces\<close>











subsection \<open>Sheets that the parser reads back unchanged\<close>













section \<open>Properties\<close>

subsection \<open>Evaluation on concrete inputs\<close>

text \<open>
  The defining equations that the simplifier unfolds to run the field reader and the parser
  on a literal input.
\<close>

lemmas field_eval = ReadString_def TrimLeft_def Trim_def isQuoted_def unquote_def
  unquote_loop.simps delims_def eol_def HasPrefix_def bufio_ReadString_def ReadUint_def
  ParseUint_def isDigit_def less_eq_char_def framesPerSecond_def Let_def

lemmas parser_eval = readTrack.simps readTracks_loop.simps readTracks_def ReadFile_loop.simps
  ReadFile_def readTrack_command_def ReadFile_command_def readFlags.simps emptyTrack_def
  emptyCuesheet_def

subsection \<open>Number formatting\<close>

lemma leftPad_zero_two: "leftPad s ''0'' 2 = Inr (drop (length s) (''00'' @ s))"
  by (simp add: leftPad_def numeral_2_eq_2)

lemma FormatUint_snoc: "\<exists>xs. FormatUint n = xs @ [char_of (48 + n mod 10)]"
  by (subst FormatUint.simps) auto

lemma FormatUint_small: "n < 10 \<Longrightarrow> FormatUint n = [char_of (48 + n)]"
  by (subst FormatUint.simps) simp

text \<open>Whatever the number, \<open>leftPad\<close> leaves its last two decimal digits.\<close>

lemma leftPad_FormatUint:
  "leftPad (FormatUint n) ''0'' 2 =
     Inr [char_of (48 + (n div 10) mod 10), char_of (48 + n mod 10)]"
proof (cases "n < 10")
  case True
  have z: "char_of (48::nat) = CHR ''0''" by code_simp
  from True show ?thesis by (simp add: leftPad_zero_two FormatUint_small z)
next
  case False
  obtain xs where xs: "FormatUint (n div 10) = xs @ [char_of (48 + (n div 10) mod 10)]"
    using FormatUint_snoc by blast
  have "FormatUint n = FormatUint (n div 10) @ [char_of (48 + n mod 10)]"
    using False by (subst FormatUint.simps) simp
  with xs show ?thesis by (simp add: leftPad_zero_two)
qed

lemma FormatTrackNumber_digits:
  "FormatTrackNumber n = Inr [char_of (48 + (n div 10) mod 10), char_of (48 + n mod 10)]"
  by (simp add: FormatTrackNumber_def leftPad_FormatUint)

lemma FormatFrame_digits:
  "FormatFrame f =
     Inr ([char_of (48 + (f div 75 div 60 div 10) mod 10), char_of (48 + (f div 75 div 60) mod 10)]
          @ '':'' @
          [char_of (48 + (f div 75 mod 60 div 10) mod 10), char_of (48 + (f div 75 mod 60) mod 10)]
          @ '':'' @
          [char_of (48 + (f mod 75 div 10) mod 10), char_of (48 + (f mod 75) mod 10)])"
  by (simp add: FormatFrame_def leftPad_FormatUint framesPerSecond_def Let_def)

text \<open>
  C4 (the code departs from the claim). \<open>leftPad\<close> ends with the slice
  \<open>retStr[len(retStr) - overallLen:]\<close>, which keeps the last two bytes: a number of three
  digits or more loses its leading digits. Track number 100 is written \<open>00\<close>, and the frame
  of 100 minutes is written \<open>00:00:00\<close>.
\<close>

theorem leftPad_truncates:
  "FormatTrackNumber 100 = Inr ''00'' \<and> FormatFrame (100 * 60 * 75) = Inr ''00:00:00''"
  by (simp add: FormatTrackNumber_digits FormatFrame_digits char_of_eq_iff)

subsection \<open>Frames\<close>






text \<open>
  C3 (the code departs from the claim). From 100 minutes on (frame 450000) the minutes lose
  their leading digits in \<open>FormatFrame\<close>, through the slice of \<open>leftPad\<close>: frame 450000
  is written \<open>00:00:00\<close>, which \<open>ReadFrame\<close> reads as frame 0.
\<close>

theorem FormatFrame_ReadFrame_100_minutes:
  "FormatFrame 450000 = Inr ''00:00:00'' \<and> ReadFrame ''00:00:00'' = Inr (0, [])"
proof
  show "FormatFrame 450000 = Inr ''00:00:00''"
    by (simp add: FormatFrame_digits char_of_eq_iff)
  show "ReadFrame ''00:00:00'' = Inr (0, [])"
    by (simp add: field_eval ReadFrame_def)
qed

text \<open>Three parsed components are below \<open>2 ^ 32\<close>, so the 64-bit sum does not wrap.\<close>

lemma frame_no_wrap:
  assumes "mm < 2 ^ 32" "ss < 2 ^ 32" "ff < 2 ^ 32"
  shows "((mm * 60 + ss) * 75 + ff) mod 2 ^ 64 = (mm * 60 + ss) * 75 + (ff :: nat)"
proof -
  have "mm * 60 + ss < 61 * 2 ^ 32" using assms by simp
  then have "(mm * 60 + ss) * 75 < 61 * 2 ^ 32 * 75" by simp
  then have "(mm * 60 + ss) * 75 + ff < 61 * 2 ^ 32 * 75 + 2 ^ 32" using assms by simp
  also have "\<dots> < (2 :: nat) ^ 64" by simp
  finally show ?thesis by simp
qed

text \<open>
  \<open>ParseUint\<close> on 32 bits, by the text of its argument.
\<close>

lemma foldl_digits_ge:
  "n \<le> foldl (\<lambda>n c. n * 10 + (of_char c - 48)) (n :: nat) s"
proof (induction s arbitrary: n)
  case Nil
  show ?case by simp
next
  case (Cons c cs)
  have "n \<le> n * 10 + (of_char c - 48)" by simp
  also have "\<dots> \<le> foldl (\<lambda>n c. n * 10 + (of_char c - 48)) (n * 10 + (of_char c - 48)) cs"
    by (rule Cons.IH)
  finally show ?case by simp
qed

lemma ParseUint_digits_cases:
  "n \<le> m \<Longrightarrow>
   ParseUint_digits s m n =
     (if m < foldl (\<lambda>n c. n * 10 + (of_char c - 48)) n (takeWhile isDigit s) then Inl ErrRange
      else if \<not> list_all isDigit s then Inl ErrSyntax
      else Inr (foldl (\<lambda>n c. n * 10 + (of_char c - 48)) n s))"
proof (induction s arbitrary: n)
  case Nil
  then show ?case by simp
next
  case (Cons c cs)
  show ?case
  proof (cases "isDigit c")
    case False
    with Cons.prems show ?thesis by simp
  next
    case d: True
    let ?n1 = "n * 10 + (of_char c - 48)"
    show ?thesis
    proof (cases "?n1 > m")
      case True
      have "?n1 \<le> foldl (\<lambda>n c. n * 10 + (of_char c - 48)) ?n1 (takeWhile isDigit cs)"
        by (rule foldl_digits_ge)
      with True have "m < foldl (\<lambda>n c. n * 10 + (of_char c - 48)) ?n1 (takeWhile isDigit cs)"
        by simp
      with True d show ?thesis by (simp add: Let_def)
    next
      case False
      then have "?n1 \<le> m" by simp
      from Cons.IH [OF this] False d show ?thesis by (simp add: Let_def)
    qed
  qed
qed

lemma ParseUint_32:
  "ParseUint x 32 =
     (case componentError x of
        Some e \<Rightarrow> Inl (NumError ''ParseUint'' x e)
      | None \<Rightarrow> Inr (decimalValue x))"
proof -
  have "(2 :: nat) ^ 32 - 1 < v \<longleftrightarrow> 2 ^ 32 \<le> v" for v by auto
  then show ?thesis
    by (simp add: ParseUint_def componentError_def decimalValue_def ParseUint_digits_cases)
qed

lemma componentError_None: "componentError x = None \<Longrightarrow> decimalValue x < 2 ^ 32"
proof -
  assume a: "componentError x = None"
  then have "list_all isDigit x" by (simp add: componentError_def split: if_splits)
  then have tw: "takeWhile isDigit x = x" by (simp add: list_all_iff)
  from a have "\<not> 2 ^ 32 \<le> decimalValue (takeWhile isDigit x)"
    by (simp add: componentError_def split: if_splits)
  then show ?thesis unfolding tw by simp
qed

text \<open>
  C5, as amended. Once \<open>ReadString\<close> has extracted the field and it is split on \<open>:\<close>,
  \<open>ReadFrame\<close> returns \<open>ErrSyntax\<close> when the number of components is not 3. With three
  components it returns the error of the first one, in the order minutes, seconds, frames,
  that \<open>ParseUint\<close> (base 10, 32 bits) rejects: a \<open>NumError\<close> that names the component
  and holds \<open>ErrSyntax\<close> when the component is empty, \<open>ErrRange\<close> when the digits at its
  start denote \<open>2 ^ 32\<close> or more, whether or not a byte that is not a digit follows them, and
  \<open>ErrSyntax\<close> when they denote less and some byte is not a digit. When no component is
  rejected it returns \<open>(minutes * 60 + seconds) * 75 + frames\<close> together with the rest of
  the cursor.
\<close>

theorem ReadFrame_result:
  assumes "ReadString s = Inr (fld, rest)"
  shows "(length (Split fld (CHR '':'')) \<noteq> 3 \<longrightarrow> ReadFrame s = Inl ErrSyntax)
    \<and> (\<forall>a b c. Split fld (CHR '':'') = [a, b, c] \<longrightarrow>
          ReadFrame s =
            (case componentError a of
               Some e \<Rightarrow> Inl (NumError ''ParseUint'' a e)
             | None \<Rightarrow>
                 (case componentError b of
                    Some e \<Rightarrow> Inl (NumError ''ParseUint'' b e)
                  | None \<Rightarrow>
                      (case componentError c of
                         Some e \<Rightarrow> Inl (NumError ''ParseUint'' c e)
                       | None \<Rightarrow>
                           Inr ((decimalValue a * 60 + decimalValue b) * 75 + decimalValue c,
                                rest)))))"
proof (intro conjI allI impI)
  assume "length (Split fld (CHR '':'')) \<noteq> 3"
  then show "ReadFrame s = Inl ErrSyntax"
    using assms by (simp add: ReadFrame_def)
next
  fix a b c
  assume sp: "Split fld (CHR '':'') = [a, b, c]"
  have wrap: "((decimalValue a * 60 + decimalValue b) * 75 + decimalValue c) mod 2 ^ 64 =
      (decimalValue a * 60 + decimalValue b) * 75 + decimalValue c"
    if "componentError a = None" "componentError b = None" "componentError c = None"
    using that by (intro frame_no_wrap componentError_None)
  show "ReadFrame s =
            (case componentError a of
               Some e \<Rightarrow> Inl (NumError ''ParseUint'' a e)
             | None \<Rightarrow>
                 (case componentError b of
                    Some e \<Rightarrow> Inl (NumError ''ParseUint'' b e)
                  | None \<Rightarrow>
                      (case componentError c of
                         Some e \<Rightarrow> Inl (NumError ''ParseUint'' c e)
                       | None \<Rightarrow>
                           Inr ((decimalValue a * 60 + decimalValue b) * 75 + decimalValue c,
                                rest))))"
    using assms sp wrap
    by (simp add: ReadFrame_def ParseUint_32 framesPerSecond_def del: mod_mod_trivial
        split: option.split)
qed

text \<open>
  The scenario of the specification, \<open>01:02:03\<close> is frame 4653, and one input for each
  kind of error: digits that overflow before a letter, a letter after a small number, an
  empty component, and two components only.
\<close>

lemmas frame_eval = componentError_def decimalValue_def isDigit_def less_eq_char_def

theorem ReadFrame_result_witness:
  "ReadString ''01:02:03'' = Inr (''01:02:03'', []) \<and> ReadFrame ''01:02:03'' = Inr (4653, [])
   \<and> ReadString ''99999999999x:00:00'' = Inr (''99999999999x:00:00'', [])
   \<and> ReadFrame ''99999999999x:00:00'' = Inl (NumError ''ParseUint'' ''99999999999x'' ErrRange)
   \<and> ReadFrame ''00:1x:00'' = Inl (NumError ''ParseUint'' ''1x'' ErrSyntax)
   \<and> ReadFrame ''00:00:'' = Inl (NumError ''ParseUint'' '''' ErrSyntax)
   \<and> ReadFrame ''00:00'' = Inl ErrSyntax"
proof -
  have rs: "ReadString ''01:02:03'' = Inr (''01:02:03'', [])" by (simp add: field_eval)
  have sp: "Split ''01:02:03'' (CHR '':'') = [''01'', ''02'', ''03'']" by simp
  from ReadFrame_result [OF rs] sp
  have 1: "ReadFrame ''01:02:03'' = Inr (4653, [])"
    by (simp add: frame_eval)
  have rs2: "ReadString ''99999999999x:00:00'' = Inr (''99999999999x:00:00'', [])"
    by (simp add: field_eval)
  have sp2: "Split ''99999999999x:00:00'' (CHR '':'') = [''99999999999x'', ''00'', ''00'']" by simp
  from ReadFrame_result [OF rs2] sp2
  have 2: "ReadFrame ''99999999999x:00:00'' = Inl (NumError ''ParseUint'' ''99999999999x'' ErrRange)"
    by (simp add: frame_eval)
  have rs3: "ReadString ''00:1x:00'' = Inr (''00:1x:00'', [])" by (simp add: field_eval)
  have sp3: "Split ''00:1x:00'' (CHR '':'') = [''00'', ''1x'', ''00'']" by simp
  from ReadFrame_result [OF rs3] sp3
  have 3: "ReadFrame ''00:1x:00'' = Inl (NumError ''ParseUint'' ''1x'' ErrSyntax)"
    by (simp add: frame_eval)
  have rs4: "ReadString ''00:00:'' = Inr (''00:00:'', [])" by (simp add: field_eval)
  have sp4: "Split ''00:00:'' (CHR '':'') = [''00'', ''00'', '''']" by simp
  from ReadFrame_result [OF rs4] sp4
  have 4: "ReadFrame ''00:00:'' = Inl (NumError ''ParseUint'' '''' ErrSyntax)"
    by (simp add: frame_eval)
  have rs5: "ReadString ''00:00'' = Inr (''00:00'', [])" by (simp add: field_eval)
  have sp5: "length (Split ''00:00'' (CHR '':'')) \<noteq> 3" by simp
  from ReadFrame_result [OF rs5] sp5
  have 5: "ReadFrame ''00:00'' = Inl ErrSyntax" by simp
  from rs 1 rs2 2 3 4 5 show ?thesis by simp
qed

text \<open>
  Against C5 as stated: a component of \<open>2 ^ 32\<close> or more fails unsigned parsing, and the
  error that \<open>ReadFrame\<close> returns is then a range error, not a syntax error.
\<close>

theorem ReadFrame_range_error:
  "ReadFrame ''4294967296:00:00'' = Inl (NumError ''ParseUint'' ''4294967296'' ErrRange)"
  by (simp add: field_eval ReadFrame_def)

subsection \<open>Quoting\<close>

lemma FormatString_no_delims: "\<not> ContainsAny s delims \<Longrightarrow> FormatString s = s"
  by (simp add: FormatString_def)

text \<open>
  C2 (the code departs from the claim). \<open>quote\<close> puts a backslash before each quote and
  backslash; \<open>unquote\<close> steps over an escaped byte to find the closing quote but returns the
  raw slice, backslashes included. For \<open>a "b"\<close>, which contains a space, the result is
  \<open>a \"b\"\<close>. The second half of the claim holds (\<open>FormatString_no_delims\<close>).
\<close>

theorem unquote_quote_keeps_escapes:
  "quote (''a '' @ [CHR 0x22] @ ''b'' @ [CHR 0x22]) (CHR 0x22) =
     [CHR 0x22] @ ''a '' @ [CHR 0x5C, CHR 0x22] @ ''b'' @ [CHR 0x5C, CHR 0x22] @ [CHR 0x22]
   \<and> unquote (quote (''a '' @ [CHR 0x22] @ ''b'' @ [CHR 0x22]) (CHR 0x22)) =
     Inr (''a '' @ [CHR 0x5C, CHR 0x22] @ ''b'' @ [CHR 0x5C, CHR 0x22])"
  by (simp add: quote_def field_eval)

subsection \<open>End of input and unterminated quotes\<close>

lemma ReadFile_empty: "ReadFile [] = Inr emptyCuesheet"
  by (simp add: ReadFile_def ReadFile_loop.simps [of "[]"] bufio_ReadString_def)

lemma readTrack_empty: "readTrack [] track = Inr (track, [])"
  by (simp add: readTrack.simps [of "[]"] bufio_ReadString_def)

lemma readTracks_empty: "readTracks [] = Inr ([], [])"
  by (simp add: readTracks_def readTracks_loop.simps [of "[]"] bufio_ReadString_def)

text \<open>
  C7. The empty input parses without error to the sheet with no comment, no file and every
  other field empty or zero. End of input also closes the scopes that are open: the track list
  and the track return what they have, and a sheet that ends right after a \<open>TRACK\<close> line
  parses to one file with one track.
\<close>

theorem ReadFile_empty_input:
  "ReadFile [] =
     Inr \<lparr>Rem = [], Catalog = [], CdTextFile = [], Title = [], Performer = [], SongWriter = [],
      Composer = [], Arranger = [], Message = [], Genre = [], DiscId = [], UpcEan = [],
      Pregap = 0, Postgap = 0, File = []\<rparr>
   \<and> readTracks [] = Inr ([], [])
   \<and> readTrack [] track = Inr (track, [])
   \<and> ReadFile (''FILE a.wav WAVE'' @ eol @ ''  TRACK 01 AUDIO'' @ eol) =
       Inr (emptyCuesheet\<lparr>File := [\<lparr>FileName = ''a.wav'', FileType = ''WAVE'',
         Tracks = [emptyTrack\<lparr>TrackNumber := 1, TrackDataType := ''AUDIO''\<rparr>]\<rparr>]\<rparr>)"
proof (intro conjI)
  show "ReadFile (''FILE a.wav WAVE'' @ eol @ ''  TRACK 01 AUDIO'' @ eol) =
       Inr (emptyCuesheet\<lparr>File := [\<lparr>FileName = ''a.wav'', FileType = ''WAVE'',
         Tracks = [emptyTrack\<lparr>TrackNumber := 1, TrackDataType := ''AUDIO''\<rparr>]\<rparr>]\<rparr>)"
    by (simp add: field_eval parser_eval)
qed (simp_all add: ReadFile_empty readTracks_empty readTrack_empty emptyCuesheet_def)

text \<open>
  C9. On \<open>"abc\<close> (an opening quote and no closing one) \<open>unquote\<close> returns \<open>abc\<close>, and
  \<open>ReadString\<close> then slices the four-byte cursor from index \<open>len(v) + 2 = 5\<close>: a panic,
  neither a value nor an error. \<open>ReadFile\<close> reaches it on the line \<open>TITLE "abc\<close>.
\<close>

theorem ReadString_unterminated_quote_panics:
  "unquote (CHR 0x22 # ''abc'') = Inr ''abc''
   \<and> ReadString (CHR 0x22 # ''abc'') = Inl Panic
   \<and> ReadFile (''TITLE '' @ [CHR 0x22] @ ''abc'' @ eol) = Inl Panic"
  by (simp add: field_eval parser_eval)

subsection \<open>Unrecognized commands inside a track\<close>

lemma bufio_ReadString_line:
  "delim \<notin> set line \<Longrightarrow>
   bufio_ReadString (line @ delim # b) delim = (line @ [delim], False, b)"
proof -
  assume a: "delim \<notin> set line"
  then have "takeWhile (\<lambda>c. c \<noteq> delim) (line @ delim # b) = line"
    by (induction line) auto
  moreover from a have "dropWhile (\<lambda>c. c \<noteq> delim) (line @ delim # b) = delim # b"
    by (induction line) auto
  ultimately show ?thesis by (simp add: bufio_ReadString_def)
qed

lemma bufio_ReadString_eof:
  "delim \<notin> set b \<Longrightarrow> bufio_ReadString b delim = (b, True, [])"
  by (simp add: bufio_ReadString_def)

lemma HasPrefix_append: "HasPrefix s p \<Longrightarrow> HasPrefix (s @ t) p"
proof -
  assume "HasPrefix s p"
  then have p: "take (length p) s = p" by (simp add: HasPrefix_def)
  then have "length (take (length p) s) = length p" by simp
  then have "length p \<le> length s" by simp
  then have "take (length p) (s @ t) = take (length p) s" by simp
  with p show ?thesis by (simp add: HasPrefix_def)
qed

text \<open>
  C6, as amended. A line with the four-space prefix whose command is not a track-detail
  command ends the track: \<open>readTrack\<close> returns the track as it is, and the reader it leaves
  is the input after that line. The line is consumed, not put back: the \<open>default\<close> case
  leaves the loop without restoring the reader, so \<open>readTracks\<close> goes on with the next
  line.
\<close>

theorem readTrack_unrecognized_command:
  assumes "CHR 0x0A \<notin> set line" "HasPrefix line ''    ''"
    "ReadString (Trim (line @ eol) delims) = Inr (command, args)"
    "command \<notin> set [''FLAGS'', ''ISRC'', ''TITLE'', ''PERFORMER'', ''SONGWRITER'', ''COMPOSER'',
       ''ARRANGER'', ''MESSAGE'', ''PREGAP'', ''POSTGAP'', ''INDEX'', ''REM'']"
  shows "readTrack (line @ eol @ b) track = Inr (track, b)"
proof -
  have r: "bufio_ReadString (line @ eol @ b) (CHR 0x0A) = (line @ eol, False, b)"
    using bufio_ReadString_line [OF assms(1)] by (simp add: eol_def)
  have p: "HasPrefix (line @ eol) ''    ''"
    using assms(2) by (rule HasPrefix_append)
  have c: "readTrack_command command args track = Inr None"
    using assms(4) by (simp add: readTrack_command_def)
  show ?thesis
    by (subst readTrack.simps) (simp add: r p assms(3) c)
qed

theorem readTrack_unrecognized_command_witness:
  "readTrack (''    FOO bar'' @ eol @ ''  TRACK 02 AUDIO'' @ eol) emptyTrack =
     Inr (emptyTrack, ''  TRACK 02 AUDIO'' @ eol)"
  by (rule readTrack_unrecognized_command [where command = "''FOO''" and args = "''bar''"])
    (simp_all add: field_eval)

text \<open>
  Against C6 as stated: after the unrecognized line \<open>FOO bar\<close> the reader does not hold
  that line again, and the \<open>TRACK 02\<close> line behind it is read as a second track of the
  file. Had the line been put back, \<open>readTracks\<close> would have read it and stopped.
\<close>

theorem readTrack_default_not_pushed_back:
  "readTrack (''    FOO bar'' @ eol @ ''  TRACK 02 AUDIO'' @ eol) emptyTrack \<noteq>
     Inr (emptyTrack, ''    FOO bar'' @ eol @ ''  TRACK 02 AUDIO'' @ eol)
   \<and> ReadFile (''FILE a.wav WAVE'' @ eol @ ''  TRACK 01 AUDIO'' @ eol @ ''    FOO bar'' @ eol @
        ''  TRACK 02 AUDIO'' @ eol) =
      Inr (emptyCuesheet\<lparr>File := [\<lparr>FileName = ''a.wav'', FileType = ''WAVE'',
         Tracks = [emptyTrack\<lparr>TrackNumber := 1, TrackDataType := ''AUDIO''\<rparr>,
                   emptyTrack\<lparr>TrackNumber := 2, TrackDataType := ''AUDIO''\<rparr>]\<rparr>]\<rparr>)"
  by (simp add: field_eval parser_eval)

subsection \<open>Validation\<close>

lemma fold_Track_Validate:
  "fold (\<lambda>track errs.
           if Track_Validate track \<noteq> [] then errs @ Track_Validate track else errs) ts errs =
   errs @ concat (map Track_Validate ts)"
  by (induction ts arbitrary: errs) simp_all

lemma fold_File_Validate:
  "fold (\<lambda>file errs.
           fold (\<lambda>track errs.
                   if Track_Validate track \<noteq> [] then errs @ Track_Validate track else errs)
             (Tracks file)
             (case ValidateFileType (FileType file) of
                None \<Rightarrow> errs | Some err \<Rightarrow> errs @ [err])) fs errs =
   errs @ concat (map (\<lambda>file.
            (case ValidateFileType (FileType file) of None \<Rightarrow> [] | Some err \<Rightarrow> [err]) @
            concat (map Track_Validate (Tracks file))) fs)"
  by (induction fs arbitrary: errs) (simp_all add: fold_Track_Validate split: option.splits)

lemma Cuesheet_Validate_concat:
  "Cuesheet_Validate c =
     (if length (Catalog c) > 0
      then (case ValidateCatalog (Catalog c) of None \<Rightarrow> [] | Some err \<Rightarrow> [err]) else []) @
     (if length (File c) = 0 then [ErrSyntax] else []) @
     concat (map (\<lambda>file.
            (case ValidateFileType (FileType file) of None \<Rightarrow> [] | Some err \<Rightarrow> [err]) @
            concat (map Track_Validate (Tracks file))) (File c))"
  by (simp add: Cuesheet_Validate_def fold_File_Validate Let_def)

lemma concat_map_member:
  "x \<in> set xs \<Longrightarrow> \<exists>pre post. concat (map f xs) = pre @ f x @ post"
proof -
  assume "x \<in> set xs"
  then obtain ys zs where "xs = ys @ x # zs" by (auto simp: in_set_conv_decomp)
  then have "concat (map f xs) = concat (map f ys) @ f x @ concat (map f zs)" by simp
  then show ?thesis by blast
qed

lemma Track_Validate_only_index_0:
  assumes "Index t = [idx]" "Number idx = 0"
  shows "\<exists>rng rest. Track_Validate t = rng @ ErrSyntax # rest \<and> set rng \<subseteq> {ErrRange}"
proof -
  have ix: "Track_Validate_indexes (Index t) (False, errs) = (False, errs)" for errs
    using assms by (simp add: Track_Validate_indexes_def)
  define rng where "rng = (if TrackNumber t < 1 \<or> TrackNumber t > 99 then [ErrRange] else [])"
  have "\<exists>rest. Track_Validate t = rng @ ErrSyntax # rest"
    unfolding Track_Validate_def Let_def ix rng_def
    by (auto split: option.splits)
  moreover have "set rng \<subseteq> {ErrRange}" by (auto simp: rng_def)
  ultimately show ?thesis by blast
qed

text \<open>
  C8. Both violations are the error value \<open>ErrSyntax\<close>, so they are told apart by where
  they stand. With a catalog of length 9, \<open>ValidateCatalog\<close> returns \<open>ErrSyntax\<close> and
  it is the first entry of the list; the errors of a track whose only index is number 0 follow
  later in the same list, and among them the \<open>ErrSyntax\<close> for the missing index 1 comes
  after at most the range error of the track number. \<open>Validate\<close> goes on after the first
  violation.
\<close>

theorem Validate_reports_catalog_and_index:
  assumes "length (Catalog c) = 9" "file \<in> set (File c)" "t \<in> set (Tracks file)"
    "Index t = [idx]" "Number idx = 0"
  shows "ValidateCatalog (Catalog c) = Some ErrSyntax
    \<and> (\<exists>pre post rng rest.
          Cuesheet_Validate c = ErrSyntax # pre @ Track_Validate t @ post
          \<and> Track_Validate t = rng @ ErrSyntax # rest \<and> set rng \<subseteq> {ErrRange})"
proof -
  have cat: "ValidateCatalog (Catalog c) = Some ErrSyntax"
    using assms(1) by (simp add: ValidateCatalog_def)
  obtain p1 q1 where t: "concat (map Track_Validate (Tracks file)) = p1 @ Track_Validate t @ q1"
    using concat_map_member [OF assms(3)] by blast
  let ?f = "\<lambda>file. (case ValidateFileType (FileType file) of None \<Rightarrow> [] | Some err \<Rightarrow> [err]) @
            concat (map Track_Validate (Tracks file))"
  obtain p2 q2 where f: "concat (map ?f (File c)) = p2 @ ?f file @ q2"
    using concat_map_member [OF assms(2)] by blast
  have ne: "File c \<noteq> []" using assms(2) by auto
  have "Cuesheet_Validate c =
     ErrSyntax # (p2 @ (case ValidateFileType (FileType file) of None \<Rightarrow> [] | Some err \<Rightarrow> [err]) @ p1)
       @ Track_Validate t @ (q1 @ q2)"
    using assms(1) ne by (simp add: Cuesheet_Validate_concat cat f t)
  moreover obtain rng rest where "Track_Validate t = rng @ ErrSyntax # rest" "set rng \<subseteq> {ErrRange}"
    using Track_Validate_only_index_0 [OF assms(4,5)] by blast
  ultimately show ?thesis using cat by blast
qed

text \<open>A sheet with catalog \<open>123456789\<close> and one track with index 0 only: two violations.\<close>

theorem Validate_reports_catalog_and_index_witness:
  "Cuesheet_Validate
     (emptyCuesheet\<lparr>Catalog := ''123456789'',
        File := [\<lparr>FileName = ''a.wav'', FileType = ''WAVE'',
                 Tracks = [emptyTrack\<lparr>TrackNumber := 1, TrackDataType := ''AUDIO'',
                             Index := [\<lparr>Number = 0, Frame = 0\<rparr>]\<rparr>]\<rparr>]\<rparr>) = [ErrSyntax, ErrSyntax]
   \<and> ValidateCatalog ''123456789'' = Some ErrSyntax
   \<and> Track_Validate (emptyTrack\<lparr>TrackNumber := 1, TrackDataType := ''AUDIO'',
                             Index := [\<lparr>Number = 0, Frame = 0\<rparr>]\<rparr>) = [ErrSyntax]"
proof -
  define t where "t = emptyTrack\<lparr>TrackNumber := 1, TrackDataType := ''AUDIO'',
                             Index := [\<lparr>Number = 0, Frame = 0\<rparr>]\<rparr>"
  define f where "f = \<lparr>FileName = ''a.wav'', FileType = ''WAVE'', Tracks = [t]\<rparr>"
  define c where "c = emptyCuesheet\<lparr>Catalog := ''123456789'', File := [f]\<rparr>"
  have tv: "Track_Validate t = [ErrSyntax]"
    by (simp add: t_def Track_Validate_def Track_Validate_indexes_def emptyTrack_def
        ValidateTrackDataType_def ValidTrackModes_def)
  have len: "length (Cuesheet_Validate c) = 2"
    by (simp add: c_def f_def Cuesheet_Validate_concat tv emptyCuesheet_def ValidateCatalog_def
        ValidateFileType_def ValidFileTypes_def)
  have h1: "length (Catalog c) = 9" by (simp add: c_def emptyCuesheet_def)
  have h2: "f \<in> set (File c)" by (simp add: c_def emptyCuesheet_def)
  have h3: "t \<in> set (Tracks f)" by (simp add: f_def)
  have h4: "Index t = [\<lparr>Number = 0, Frame = 0\<rparr>]" by (simp add: t_def emptyTrack_def)
  have h5: "Number \<lparr>Number = 0, Frame = 0\<rparr> = 0" by simp
  from Validate_reports_catalog_and_index [OF h1 h2 h3 h4 h5]
  obtain pre post where cv: "Cuesheet_Validate c = ErrSyntax # pre @ Track_Validate t @ post"
    and cat: "ValidateCatalog (Catalog c) = Some ErrSyntax"
    by blast
  from len have "length (ErrSyntax # pre @ Track_Validate t @ post) = 2" by (simp only: cv)
  then have "pre = [] \<and> post = []" by (simp add: tv)
  with cv tv have "Cuesheet_Validate c = [ErrSyntax, ErrSyntax]" by simp
  moreover from cat have "ValidateCatalog ''123456789'' = Some ErrSyntax"
    by (simp add: c_def emptyCuesheet_def)
  ultimately show ?thesis using tv by (simp only: c_def f_def t_def) 
qed

subsection \<open>An unterminated last line\<close>

lemma same_upto_Inl [simp]: "same_upto l (Inl e) y = (y = Inl e)"
  by (simp add: same_upto_def)

lemma same_upto_Inr [simp]:
  "same_upto l (Inr (a, r)) y = (y = Inr (a, r @ l) \<or> (r = [] \<and> y = Inr (a, [])))"
  by (simp add: same_upto_def)

lemma same_upto_if:
  "(c \<Longrightarrow> same_upto l a a') \<Longrightarrow> (\<not> c \<Longrightarrow> same_upto l b b') \<Longrightarrow>
   same_upto l (if c then a else b) (if c then a' else b')"
  by simp

lemma same_upto_case_sum:
  "(\<And>a. x = Inr a \<Longrightarrow> same_upto l (f a) (g a)) \<Longrightarrow>
   same_upto l (case x of Inl e \<Rightarrow> Inl e | Inr a \<Rightarrow> f a)
     (case x of Inl e \<Rightarrow> Inl e | Inr a \<Rightarrow> g a)"
  by (cases x) simp_all

lemma same_upto_case_prod:
  "(\<And>a b. p = (a, b) \<Longrightarrow> same_upto l (f a b) (g a b)) \<Longrightarrow>
   same_upto l (case p of (a, b) \<Rightarrow> f a b) (case p of (a, b) \<Rightarrow> g a b)"
  by (cases p) simp

lemma bufio_ReadString_append:
  assumes "delim \<in> set s"
  shows "\<exists>line b. bufio_ReadString s delim = (line, False, b)
           \<and> bufio_ReadString (s @ l) delim = (line, False, b @ l)"
proof -
  from assms obtain line b where s: "s = line @ delim # b" and n: "delim \<notin> set line"
    by (auto dest: split_list_first)
  have 1: "bufio_ReadString (line @ delim # b) delim = (line @ [delim], False, b)"
    using n by (rule bufio_ReadString_line)
  have 2: "bufio_ReadString (line @ delim # (b @ l)) delim = (line @ [delim], False, b @ l)"
    using n by (rule bufio_ReadString_line)
  have 3: "s @ l = line @ delim # (b @ l)" by (simp only: s append_assoc append_Cons)
  show ?thesis
    unfolding 3 unfolding s using 1 2 by blast
qed

lemma readTrack_step:
  assumes "bufio_ReadString b (CHR 0x0A) = (line, False, b')"
  shows "readTrack b track =
     (if \<not> HasPrefix line ''    '' then Inr (track, b)
      else
        (case ReadString (Trim line delims) of
           Inl e \<Rightarrow> Inl e
         | Inr (command, line') \<Rightarrow>
             (case readTrack_command command line' track of
                Inl e \<Rightarrow> Inl e
              | Inr None \<Rightarrow> Inr (track, b')
              | Inr (Some track') \<Rightarrow> readTrack b' track')))"
  by (subst readTrack.simps) (simp add: assms)

lemma readTrack_eof:
  assumes "CHR 0x0A \<notin> set b"
  shows "readTrack b track = Inr (track, [])"
  by (subst readTrack.simps) (simp add: assms bufio_ReadString_def)

lemma readTrack_unterminated:
  assumes l: "CHR 0x0A \<notin> set l"
  shows "same_upto l (readTrack s t) (readTrack (s @ l) t)"
proof (induction "length s" arbitrary: s t rule: less_induct)
  case less
  show ?case
  proof (cases "CHR 0x0A \<in> set s")
    case False
    then show ?thesis using l by (simp add: readTrack_eof)
  next
    case True
    obtain line b1 where r: "bufio_ReadString s (CHR 0x0A) = (line, False, b1)"
      and r': "bufio_ReadString (s @ l) (CHR 0x0A) = (line, False, b1 @ l)"
      using bufio_ReadString_append [OF True, of l] by blast
    have sh: "length b1 < length s" using r by (rule bufio_ReadString_shorter)
    have ih: "same_upto l (readTrack b1 t') (readTrack (b1 @ l) t')" for t'
      using less [OF sh] .
    show ?thesis
      unfolding readTrack_step [OF r] readTrack_step [OF r']
      by (simp add: ih split: sum.splits option.splits prod.splits)
  qed
qed

lemma readTracks_loop_step:
  assumes "bufio_ReadString b (CHR 0x0A) = (line, False, b')"
  shows "readTracks_loop b tracks =
     (if \<not> HasPrefix line ''  '' then Inr (tracks, b)
      else
        (case ReadString (Trim line delims) of
           Inl e \<Rightarrow> Inl e
         | Inr (command, line') \<Rightarrow>
             if command = ''TRACK'' then
               (case ReadUint line' of
                  Inl e \<Rightarrow> Inl e
                | Inr (num, line'') \<Rightarrow>
                    (case ReadString line'' of
                       Inl e \<Rightarrow> Inl e
                     | Inr (dataType, _) \<Rightarrow>
                         (case readTrack b' (emptyTrack\<lparr>TrackNumber := num, TrackDataType := dataType\<rparr>) of
                            Inl e \<Rightarrow> Inl e
                          | Inr (track, b'') \<Rightarrow> readTracks_loop b'' (tracks @ [track]))))
             else Inr (tracks, b')))"
  by (subst readTracks_loop.simps) (simp add: assms)

lemma readTracks_loop_eof:
  assumes "CHR 0x0A \<notin> set b"
  shows "readTracks_loop b tracks = Inr (tracks, [])"
  by (subst readTracks_loop.simps) (simp add: assms bufio_ReadString_def)

lemma readTracks_loop_unterminated:
  assumes l: "CHR 0x0A \<notin> set l"
  shows "same_upto l (readTracks_loop s ts) (readTracks_loop (s @ l) ts)"
proof (induction "length s" arbitrary: s ts rule: less_induct)
  case less
  show ?case
  proof (cases "CHR 0x0A \<in> set s")
    case False
    then show ?thesis using l by (simp add: readTracks_loop_eof)
  next
    case True
    obtain line b1 where r: "bufio_ReadString s (CHR 0x0A) = (line, False, b1)"
      and r': "bufio_ReadString (s @ l) (CHR 0x0A) = (line, False, b1 @ l)"
      using bufio_ReadString_append [OF True, of l] by blast
    have sh: "length b1 < length s" using r by (rule bufio_ReadString_shorter)
    have inner: "same_upto l
            (case readTrack b1 t of
               Inl e \<Rightarrow> Inl e
             | Inr (track, b2) \<Rightarrow> readTracks_loop b2 (ts @ [track]))
            (case readTrack (b1 @ l) t of
               Inl e \<Rightarrow> Inl e
             | Inr (track, b2) \<Rightarrow> readTracks_loop b2 (ts @ [track]))" for t
    proof -
      have rel: "same_upto l (readTrack b1 t) (readTrack (b1 @ l) t)"
        using l by (rule readTrack_unterminated)
      show ?thesis
      proof (cases "readTrack b1 t")
        case (Inl e)
        with rel show ?thesis by auto
      next
        case (Inr p)
        obtain track b2 where p: "p = (track, b2)" by (cases p)
        have le: "length b2 \<le> length b1"
          using Inr p by (auto dest: readTrack_length)
        from rel Inr p consider "readTrack (b1 @ l) t = Inr (track, b2 @ l)"
          | "b2 = []" "readTrack (b1 @ l) t = Inr (track, [])" by auto
        then show ?thesis
        proof cases
          case 1
          have "same_upto l (readTracks_loop b2 (ts @ [track])) (readTracks_loop (b2 @ l) (ts @ [track]))"
            using less [of b2] le sh by simp
          with 1 Inr p show ?thesis by simp
        next
          case 2
          with Inr p show ?thesis by (simp add: readTracks_loop_eof)
        qed
      qed
    qed
    show ?thesis
      unfolding readTracks_loop_step [OF r] readTracks_loop_step [OF r']
      by (intro same_upto_if same_upto_case_sum same_upto_case_prod inner) simp_all
  qed
qed

lemma ReadFile_command_unterminated:
  assumes l: "CHR 0x0A \<notin> set l"
  shows "same_upto l (ReadFile_command command line s c) (ReadFile_command command line (s @ l) c)"
proof -
  have rel: "same_upto l (readTracks s) (readTracks (s @ l))"
    unfolding readTracks_def using l by (rule readTracks_loop_unterminated)
  have inner: "same_upto l
     (case readTracks s of
        Inl e \<Rightarrow> Inl e
      | Inr (tracks, b') \<Rightarrow> Inr (f tracks, b'))
     (case readTracks (s @ l) of
        Inl e \<Rightarrow> Inl e
      | Inr (tracks, b') \<Rightarrow> Inr (f tracks, b'))" for f :: "Track list \<Rightarrow> Cuesheet"
    using rel by (cases "readTracks s") auto
  show ?thesis
    unfolding ReadFile_command_def
    by (intro same_upto_if same_upto_case_sum same_upto_case_prod inner) simp_all
qed

lemma ReadFile_loop_step:
  assumes "bufio_ReadString b (CHR 0x0A) = (line, False, b')"
  shows "ReadFile_loop b cuesheet =
     (case ReadString (Trim line delims) of
        Inl e \<Rightarrow> Inl e
      | Inr (command, line') \<Rightarrow>
          (case ReadFile_command command line' b' cuesheet of
             Inl e \<Rightarrow> Inl e
           | Inr (cuesheet', b'') \<Rightarrow> ReadFile_loop b'' cuesheet'))"
  by (subst ReadFile_loop.simps) (simp add: assms)

lemma ReadFile_loop_eof:
  assumes "CHR 0x0A \<notin> set b"
  shows "ReadFile_loop b cuesheet = Inr cuesheet"
  by (subst ReadFile_loop.simps) (simp add: assms bufio_ReadString_def)

lemma ReadFile_loop_unterminated:
  assumes l: "CHR 0x0A \<notin> set l"
  shows "ReadFile_loop (s @ l) c = ReadFile_loop s c"
proof (induction "length s" arbitrary: s c rule: less_induct)
  case less
  show ?case
  proof (cases "CHR 0x0A \<in> set s")
    case False
    then show ?thesis using l by (simp add: ReadFile_loop_eof)
  next
    case True
    obtain line b1 where r: "bufio_ReadString s (CHR 0x0A) = (line, False, b1)"
      and r': "bufio_ReadString (s @ l) (CHR 0x0A) = (line, False, b1 @ l)"
      using bufio_ReadString_append [OF True, of l] by blast
    have sh: "length b1 < length s" using r by (rule bufio_ReadString_shorter)
    have inner: "(case ReadFile_command command args (b1 @ l) c of
                   Inl e \<Rightarrow> Inl e
                 | Inr (c', b2) \<Rightarrow> ReadFile_loop b2 c') =
                 (case ReadFile_command command args b1 c of
                   Inl e \<Rightarrow> Inl e
                 | Inr (c', b2) \<Rightarrow> ReadFile_loop b2 c')" for command args
    proof -
      have rel: "same_upto l (ReadFile_command command args b1 c)
                   (ReadFile_command command args (b1 @ l) c)"
        using l by (rule ReadFile_command_unterminated)
      show ?thesis
      proof (cases "ReadFile_command command args b1 c")
        case (Inl e)
        with rel show ?thesis by auto
      next
        case (Inr p)
        obtain c' b2 where p: "p = (c', b2)" by (cases p)
        have le: "length b2 \<le> length b1"
          using Inr p by (auto dest: ReadFile_command_length)
        from rel Inr p consider "ReadFile_command command args (b1 @ l) c = Inr (c', b2 @ l)"
          | "b2 = []" "ReadFile_command command args (b1 @ l) c = Inr (c', [])" by auto
        then show ?thesis
        proof cases
          case 1
          have "ReadFile_loop (b2 @ l) c' = ReadFile_loop b2 c'"
            using less [of b2] le sh by simp
          with 1 Inr p show ?thesis by simp
        next
          case 2
          with Inr p show ?thesis by simp
        qed
      qed
    qed
    show ?thesis
      unfolding ReadFile_loop_step [OF r] ReadFile_loop_step [OF r']
      by (simp add: inner split: sum.splits prod.splits)
  qed
qed

text \<open>
  C10. Let the input end with a line \<open>l\<close> that has no newline. \<open>ReadFile\<close> returns
  what it returns on the input without \<open>l\<close>: the read of \<open>l\<close> comes back with
  \<open>io.EOF\<close> and the loop that made it is left before the line is looked at. The same holds
  for the sheet-level loop and for the loops of \<open>readTracks\<close> and \<open>readTrack\<close>, whichever
  of them meets the end of the input.
\<close>

theorem ReadFile_drops_unterminated_last_line:
  assumes "CHR 0x0A \<notin> set l"
  shows "ReadFile (s @ l) = ReadFile s
    \<and> map_sum id fst (readTracks (s @ l)) = map_sum id fst (readTracks s)
    \<and> map_sum id fst (readTrack (s @ l) track) = map_sum id fst (readTrack s track)"
proof (intro conjI)
  show "ReadFile (s @ l) = ReadFile s"
    unfolding ReadFile_def using assms by (rule ReadFile_loop_unterminated)
  have "same_upto l (readTracks s) (readTracks (s @ l))"
    unfolding readTracks_def using assms by (rule readTracks_loop_unterminated)
  then show "map_sum id fst (readTracks (s @ l)) = map_sum id fst (readTracks s)"
    by (cases "readTracks s") auto
  have "same_upto l (readTrack s track) (readTrack (s @ l) track)"
    using assms by (rule readTrack_unterminated)
  then show "map_sum id fst (readTrack (s @ l) track) = map_sum id fst (readTrack s track)"
    by (cases "readTrack s track") auto
qed

text \<open>The single line \<open>FILE "a.wav" WAVE\<close> without a newline: no file, no error.\<close>

theorem ReadFile_drops_unterminated_last_line_witness:
  "ReadFile (''FILE '' @ [CHR 0x22] @ ''a.wav'' @ [CHR 0x22] @ '' WAVE'') = Inr emptyCuesheet
   \<and> File emptyCuesheet = []"
proof -
  have "CHR 0x0A \<notin> set (''FILE '' @ [CHR 0x22] @ ''a.wav'' @ [CHR 0x22] @ '' WAVE'')"
    by simp
  from ReadFile_drops_unterminated_last_line [OF this, of "[]"]
  show ?thesis by (simp add: ReadFile_empty emptyCuesheet_def)
qed

subsection \<open>Round trip: strings\<close>















subsection \<open>Round trip: the serializer in closed form\<close>









subsection \<open>Round trip: the lines of a track\<close>


































subsection \<open>Round trip: tracks and files\<close>











subsection \<open>Round trip: the sheet\<close>


































end
